theory Spec2Isabelle
  imports Main "HOL-Library.Word"
begin

unbundle bit_operations_syntax

section \<open>Identifiers and their storage paths\<close>

text \<open>
  \<^verbatim>\<open>type Id [rawIdSize]byte\<close> with \<^verbatim>\<open>idSize = 8\<close> and \<^verbatim>\<open>rawIdSize = idSize / 2\<close>:
  an array of exactly four bytes, modelled as a 4-tuple. The file store's \<^verbatim>\<open>ID\<close> and
  \<^verbatim>\<open>IDFromString\<close> are declared outside the given sources; the store uses them exactly as
  paste.go uses \<^verbatim>\<open>Id\<close> and \<^verbatim>\<open>IdFromString\<close>, which are taken for them.
\<close>

type_synonym byte = "8 word"

type_synonym Id = "byte \<times> byte \<times> byte \<times> byte"

definition idSize :: nat where
  "idSize = 8"

definition rawIdSize :: nat where
  "rawIdSize = idSize div 2"

definition randTries :: nat where
  "randTries = 10"

datatype error =
    ErrPasteNotFound
  | ErrReachedMax
  | ErrNoUnusedIDFound
  | ErrShortWrite
  | ErrInvalidId
  | ErrInvalidDirs
  | ErrRandRead
  | ErrGaveUp
  | ErrIncompatibleId
  | ErrEOF
  | ErrOS

text \<open>The slice \<^verbatim>\<open>id[:]\<close> of an identifier, and \<^verbatim>\<open>copy(id[:], b)\<close> into a zeroed one.\<close>

fun id_slice :: "Id \<Rightarrow> byte list" where
  "id_slice (b0, b1, b2, b3) = [b0, b1, b2, b3]"

definition id_copy :: "byte list \<Rightarrow> Id" where
  "id_copy b =
     (let z = b @ replicate rawIdSize 0
      in (z ! 0, z ! 1, z ! 2, z ! 3))"

subsection \<open>encoding/hex\<close>

definition hextable :: string where
  "hextable = ''0123456789abcdef''"

fun hex_EncodeToString :: "byte list \<Rightarrow> string" where
  "hex_EncodeToString [] = []"
| "hex_EncodeToString (v # vs) =
     hextable ! unat (drop_bit 4 v) # hextable ! unat (v AND 0x0f) # hex_EncodeToString vs"

definition fromHexChar :: "char \<Rightarrow> byte option" where
  "fromHexChar c =
     (let n = (of_char c :: nat)
      in if 48 \<le> n \<and> n \<le> 57 then Some (of_nat (n - 48))
         else if 97 \<le> n \<and> n \<le> 102 then Some (of_nat (n - 97 + 10))
         else if 65 \<le> n \<and> n \<le> 70 then Some (of_nat (n - 65 + 10))
         else None)"

text \<open>
  \<^verbatim>\<open>hex.DecodeString\<close> fails on a character outside \<^verbatim>\<open>[0-9a-fA-F]\<close> and on an odd length;
  its callers here discard the partial output on failure, so failure is \<open>None\<close>.
\<close>

fun hex_DecodeString :: "string \<Rightarrow> byte list option" where
  "hex_DecodeString [] = Some []"
| "hex_DecodeString [p] = None"
| "hex_DecodeString (p # q # rest) =
     (case fromHexChar p of
        None \<Rightarrow> None
      | Some a \<Rightarrow>
          (case fromHexChar q of
             None \<Rightarrow> None
           | Some b \<Rightarrow>
               (case hex_DecodeString rest of
                  None \<Rightarrow> None
                | Some bs \<Rightarrow> Some ((push_bit 4 a OR b) # bs))))"

subsection \<open>strings.Split and path.Join\<close>

text \<open>\<^verbatim>\<open>strings.Split(s, sep)\<close> for a one-character separator: always at least one part.\<close>

fun strings_Split :: "string \<Rightarrow> char \<Rightarrow> string list" where
  "strings_Split [] sep = [[]]"
| "strings_Split (c # cs) sep =
     (if c = sep then [] # strings_Split cs sep
      else (case strings_Split cs sep of
              [] \<Rightarrow> [[c]]
            | p # ps \<Rightarrow> (c # p) # ps))"

text \<open>
  \<^verbatim>\<open>path.Join\<close> of two elements: empty elements are dropped, the rest joined by a slash and
  passed to \<^verbatim>\<open>path.Clean\<close>. Every call in this program joins two non-empty runs of hex
  digits, which hold no slash and no dot, and on such a path \<^verbatim>\<open>Clean\<close> changes nothing.
\<close>

definition path_Join :: "string \<Rightarrow> string \<Rightarrow> string" where
  "path_Join a b =
     (if a = [] then b
      else if b = [] then a
      else a @ ''/'' @ b)"

text \<open>\<^verbatim>\<open>filepath.Separator\<close> on the Unix systems the program targets.\<close>

definition filepath_Separator :: char where
  "filepath_Separator = CHR ''/''"

subsection \<open>Id methods of paste.go\<close>

definition IdFromString :: "string \<Rightarrow> error + Id" where
  "IdFromString hexId =
     (if length hexId \<noteq> idSize then Inl ErrInvalidId
      else (case hex_DecodeString hexId of
              None \<Rightarrow> Inl ErrInvalidId
            | Some b \<Rightarrow>
                if length b \<noteq> rawIdSize then Inl ErrInvalidId
                else Inr (id_copy b)))"

definition IdFromPath :: "string \<Rightarrow> error + Id" where
  "IdFromPath idPath =
     (let parts = strings_Split idPath filepath_Separator
      in if length parts \<noteq> 2 then Inl ErrInvalidDirs
         else IdFromString (parts ! 0 @ parts ! 1))"

definition String :: "Id \<Rightarrow> string" where
  "String ident = hex_EncodeToString (id_slice ident)"

definition Path :: "Id \<Rightarrow> string" where
  "Path ident = (let hexId = String ident in path_Join (take 2 hexId) (drop 2 hexId))"

section \<open>The file store\<close>

subsection \<open>Headers and quota statistics\<close>

text \<open>
  Modelled from the spec: \<^verbatim>\<open>Header\<close> is declared outside the given sources. Section 3 of
  the specification gives an entry its content size in bytes and its creation/modification
  timestamp; the store itself reads only \<^verbatim>\<open>header.Size\<close>. Times are nanosecond counts,
  durations differences of them.
\<close>

record Header =
  Size :: int
  ModTime :: int

text \<open>
  Modelled from the spec: \<^verbatim>\<open>genHeader\<close> is declared outside the given sources. It fills the
  entry's metadata of section 3 from the size and the timestamp it is given.
\<close>

definition genHeader :: "Id \<Rightarrow> int \<Rightarrow> int \<Rightarrow> Header" where
  "genHeader ident modTime sz = \<lparr>Size = sz, ModTime = modTime\<rparr>"

text \<open>
  Modelled from the spec: \<^verbatim>\<open>Stats\<close> is declared outside the given sources. Section 3: the
  quota state is the running total of bytes occupied by all live entries and a maximum.
\<close>

record Stats =
  storage :: int
  maxStorage :: int

text \<open>
  Modelled from the spec: \<^verbatim>\<open>hasSpaceFor\<close> is declared outside the given sources. Section
  4.2: it returns whether admitting \<^verbatim>\<open>size\<close> additional bytes would keep the running total
  at or below the maximum.
\<close>

definition hasSpaceFor :: "Stats \<Rightarrow> int \<Rightarrow> bool" where
  "hasSpaceFor st sz = (storage st + sz \<le> maxStorage st)"

text \<open>
  Modelled from the spec: \<^verbatim>\<open>makeSpaceFor\<close> is declared outside the given sources. Section
  4.2, reserve: it adjusts the running total on admission.
\<close>

definition makeSpaceFor :: "Stats \<Rightarrow> int \<Rightarrow> Stats" where
  "makeSpaceFor st sz = st\<lparr>storage := storage st + sz\<rparr>"

text \<open>
  Modelled from the spec: \<^verbatim>\<open>freeSpace\<close> is declared outside the given sources. Section 4.2,
  release: it adjusts the running total on removal.
\<close>

definition freeSpace :: "Stats \<Rightarrow> int \<Rightarrow> Stats" where
  "freeSpace st sz = st\<lparr>storage := storage st - sz\<rparr>"

subsection \<open>State\<close>

text \<open>
  \<^verbatim>\<open>fileCache\<close> holds its \<^verbatim>\<open>sync.WaitGroup\<close> by value: \<open>reading\<close> is that counter. The map
  \<^verbatim>\<open>cache map[ID]fileCache\<close> stores such structs by value as well, so
  \<^verbatim>\<open>cached, e := s.cache[id]\<close> yields a copy of the struct, counter included.
\<close>

record fileCache =
  reading :: nat
  header :: Header
  path :: string

text \<open>
  \<^verbatim>\<open>FileContent\<close>: the open file and a pointer to a wait group. The program never rewrites a
  file once it is written, so the open file is given by the bytes it had when opened. The
  pointer is an index into \<open>guards\<close>, the wait groups that \<^verbatim>\<open>Get\<close> let escape to the heap.
\<close>

record FileContent =
  osfile :: "byte list"
  readingp :: nat

text \<open>
  The fields \<^verbatim>\<open>cache\<close> and \<^verbatim>\<open>stats\<close> of \<^verbatim>\<open>FileStore\<close>, together with what its methods act
  on outside the struct: the files below the data directory, the escaped wait groups and the
  deletions armed through \<^verbatim>\<open>SetupPasteDeletion\<close>.
\<close>

record FileStore =
  cache :: "Id \<rightharpoonup> fileCache"
  stats :: Stats
  disk :: "string \<rightharpoonup> byte list"
  guards :: "nat list"
  timers :: "(Id \<times> int) list"

text \<open>
  A store with nothing indexed. \<^verbatim>\<open>newFileStore\<close> leaves \<^verbatim>\<open>stats\<close> to be configured by code
  outside the given sources, so the maximum is a parameter here.
\<close>

definition newStore :: "int \<Rightarrow> (string \<rightharpoonup> byte list) \<Rightarrow> FileStore" where
  "newStore maxBytes d =
     \<lparr>cache = Map.empty, stats = \<lparr>storage = 0, maxStorage = maxBytes\<rparr>,
      disk = d, guards = [], timers = []\<rparr>"

subsection \<open>File system calls\<close>

text \<open>
  Every call can fail for reasons outside the program; a flag supplied with the call says
  whether it does. \<^verbatim>\<open>os.Remove\<close> and \<^verbatim>\<open>os.Open\<close> also fail when the file is missing.
\<close>

definition os_Remove ::
  "(string \<rightharpoonup> byte list) \<Rightarrow> string \<Rightarrow> bool \<Rightarrow> (string \<rightharpoonup> byte list) \<times> error option" where
  "os_Remove d p fails =
     (if fails \<or> d p = None then (d, Some ErrOS) else (d(p := None), None))"

definition os_Open :: "(string \<rightharpoonup> byte list) \<Rightarrow> string \<Rightarrow> bool \<Rightarrow> error + byte list" where
  "os_Open d p fails =
     (case d p of
        None \<Rightarrow> Inl ErrOS
      | Some bytes \<Rightarrow> if fails then Inl ErrOS else Inr bytes)"

text \<open>
  What the environment does to one \<^verbatim>\<open>writeNewFile\<close>: whether \<^verbatim>\<open>OpenFile\<close> fails, how many
  bytes \<^verbatim>\<open>Write\<close> gets through at most, whether \<^verbatim>\<open>Write\<close> and \<^verbatim>\<open>Close\<close> report an error.
\<close>

record write_fault =
  open_fails :: bool
  written :: nat
  write_fails :: bool
  close_fails :: bool

definition writeNewFile ::
  "(string \<rightharpoonup> byte list) \<Rightarrow> string \<Rightarrow> byte list \<Rightarrow> write_fault
     \<Rightarrow> (string \<rightharpoonup> byte list) \<times> error option" where
  "writeNewFile d filename data flt =
     (if d filename \<noteq> None \<or> open_fails flt then (d, Some ErrOS)
      else
        (let n = min (written flt) (length data);
             d1 = d(filename \<mapsto> take n data);
             err = (if write_fails flt then Some ErrOS else None);
             err = (if err = None \<and> n < length data then Some ErrShortWrite else err);
             err = (if err = None then (if close_fails flt then Some ErrOS else None) else err)
         in (d1, err)))"

subsection \<open>Identifier generation\<close>

text \<open>
  \<^verbatim>\<open>rand.Read\<close> is given by the draws it makes: \<open>rnd try\<close> is the outcome of the read in
  iteration \<open>try\<close>, \<open>None\<close> when the read fails. On failure the Go function returns an
  identifier beside the error, which callers do not look at.
\<close>

function randomID_loop :: "(Id \<rightharpoonup> fileCache) \<Rightarrow> (nat \<Rightarrow> Id option) \<Rightarrow> nat \<Rightarrow> error + Id" where
  "randomID_loop c rnd try =
     (if try < randTries then
        (case rnd try of
           None \<Rightarrow> randomID_loop c rnd (Suc try)
         | Some ident \<Rightarrow>
             if c ident = None then Inr ident
             else randomID_loop c rnd (Suc try))
      else Inl ErrNoUnusedIDFound)"
  by pat_completeness auto
termination
  by (relation "measure (\<lambda>(c, rnd, try). randTries - try)") auto

declare randomID_loop.simps [simp del]

definition randomID :: "(Id \<rightharpoonup> fileCache) \<Rightarrow> (nat \<Rightarrow> Id option) \<Rightarrow> error + Id" where
  "randomID c rnd = randomID_loop c rnd 0"

subsection \<open>Get, Put, Delete and handle closing\<close>

definition Get :: "FileStore \<Rightarrow> Id \<Rightarrow> bool \<Rightarrow> FileStore \<times> (error + FileContent \<times> Header)" where
  "Get s ident open_fault =
     (case cache s ident of
        None \<Rightarrow> (s, Inl ErrPasteNotFound)
      | Some cached \<Rightarrow>
          (case os_Open (disk s) (path cached) open_fault of
             Inl err \<Rightarrow> (s, Inl err)
           | Inr f \<Rightarrow>
               (s\<lparr>guards := guards s @ [reading cached + 1]\<rparr>,
                Inr (\<lparr>osfile = f, readingp = length (guards s)\<rparr>, header cached))))"

text \<open>
  \<^verbatim>\<open>FileContent.Close\<close>: \<^verbatim>\<open>reading.Done()\<close> on the wait group the handle points to. \<^verbatim>\<open>Done\<close>
  panics when the counter would drop below zero; \<open>None\<close> is that panic. The error of
  \<^verbatim>\<open>file.Close\<close> is supplied by the environment.
\<close>

definition Close :: "FileStore \<Rightarrow> FileContent \<Rightarrow> error option \<Rightarrow> (FileStore \<times> error option) option" where
  "Close s c close_err =
     (let a = readingp c
      in if a < length (guards s) \<and> 0 < guards s ! a
         then Some (s\<lparr>guards := (guards s)[a := guards s ! a - 1]\<rparr>, close_err)
         else None)"

definition Put ::
  "FileStore \<Rightarrow> byte list \<Rightarrow> (nat \<Rightarrow> Id option) \<Rightarrow> int \<Rightarrow> write_fault \<Rightarrow> FileStore \<times> (error + Id)" where
  "Put s content rnd now flt =
     (let sz = int (length content)
      in if \<not> hasSpaceFor (stats s) sz then (s, Inl ErrReachedMax)
         else
           (case randomID (cache s) rnd of
              Inl err \<Rightarrow> (s, Inl err)
            | Inr ident \<Rightarrow>
                (let hexID = String ident;
                     pastePath = path_Join (take 2 hexID) (drop 2 hexID)
                 in (case writeNewFile (disk s) pastePath content flt of
                       (d, Some err) \<Rightarrow> (s\<lparr>disk := d\<rparr>, Inl err)
                     | (d, None) \<Rightarrow>
                         (s\<lparr>disk := d,
                            stats := makeSpaceFor (stats s) sz,
                            cache := (cache s)(ident \<mapsto>
                              \<lparr>reading = 0, header = genHeader ident now sz,
                               path = pastePath\<rparr>)\<rparr>,
                          Inr ident)))))"

text \<open>
  \<^verbatim>\<open>Delete\<close> either returns its error value or stays in \<^verbatim>\<open>reading.Wait()\<close>. It waits on the
  counter of its own copy \<^verbatim>\<open>cached\<close> of the map entry, which no other code can reach, so a
  non-zero counter there would keep it waiting for ever.
\<close>

datatype delete_result = Waits | Returns "error option"

definition Delete :: "FileStore \<Rightarrow> Id \<Rightarrow> bool \<Rightarrow> FileStore \<times> delete_result" where
  "Delete s ident remove_fault =
     (case cache s ident of
        None \<Rightarrow> (s, Returns (Some ErrPasteNotFound))
      | Some cached \<Rightarrow>
          (let s1 = s\<lparr>cache := (cache s)(ident := None),
                      stats := freeSpace (stats s) (Size (header cached))\<rparr>
           in if reading cached \<noteq> 0 then (s1, Waits)
              else
                (case os_Remove (disk s1) (path cached) remove_fault of
                   (d, Some err) \<Rightarrow> (s1\<lparr>disk := d\<rparr>, Returns (Some err))
                 | (d, None) \<Rightarrow> (s1\<lparr>disk := d\<rparr>, Returns None))))"

subsection \<open>Recovery\<close>

text \<open>
  Modelled from the spec: \<^verbatim>\<open>SetupPasteDeletion\<close> is declared outside the given sources.
  Section 4.4: \<^verbatim>\<open>scheduleDeletion(identifier, afterDuration)\<close> arms a one-shot deferred
  action that deletes the identifier when it fires; section 4.5: a lifetime of zero means
  that entries never expire and are left with no scheduled deletion. An armed deletion is
  the pair of the identifier and the delay.
\<close>

definition SetupPasteDeletion :: "int \<Rightarrow> (Id \<times> int) list \<Rightarrow> Id \<Rightarrow> int \<Rightarrow> (Id \<times> int) list" where
  "SetupPasteDeletion lifeTime ts ident after =
     (if lifeTime = 0 then ts else ts @ [(ident, after)])"

text \<open>What \<^verbatim>\<open>filepath.Walk\<close> passes of \<^verbatim>\<open>os.FileInfo\<close>.\<close>

record FileInfo =
  IsDir :: bool
  fModTime :: int
  fSize :: int

text \<open>
  \<^verbatim>\<open>lifeTime\<close> and \<^verbatim>\<open>startTime\<close> are package variables, read here as parameters. The walk
  supplies the path, the file information and its own error.
\<close>

definition Recover ::
  "int \<Rightarrow> int \<Rightarrow> FileStore \<Rightarrow> string \<Rightarrow> FileInfo \<Rightarrow> error option \<Rightarrow> bool
     \<Rightarrow> FileStore \<times> error option" where
  "Recover lifeTime startTime s pastePath fileInfo err remove_fault =
     (case err of
        Some e \<Rightarrow> (s, Some e)
      | None \<Rightarrow>
          if IsDir fileInfo then (s, None)
          else
            (let parts = strings_Split pastePath filepath_Separator
             in if length parts \<noteq> 2 then (s, Some ErrInvalidDirs)
                else
                  (case IdFromString (parts ! 0 @ parts ! 1) of
                     Inl e \<Rightarrow> (s, Some e)
                   | Inr ident \<Rightarrow>
                       (let modTime = fModTime fileInfo;
                            deathTime = modTime + lifeTime
                        in if lifeTime > 0 \<and> deathTime < startTime then
                             (case os_Remove (disk s) pastePath remove_fault of
                                (d, r) \<Rightarrow> (s\<lparr>disk := d\<rparr>, r))
                           else
                             (let sz = fSize fileInfo
                              in if \<not> hasSpaceFor (stats s) sz then (s, Some ErrReachedMax)
                                 else
                                   (let lifeLeft = deathTime - startTime;
                                        cached = \<lparr>reading = 0,
                                                  header = genHeader ident modTime sz,
                                                  path = pastePath\<rparr>
                                    in (s\<lparr>stats := makeSpaceFor (stats s) sz,
                                          cache := (cache s)(ident \<mapsto> cached),
                                          timers := SetupPasteDeletion lifeTime (timers s)
                                                      ident lifeLeft\<rparr>,
                                        None)))))))"

text \<open>
  \<^verbatim>\<open>filepath.Walk(dir, s.Recover)\<close> over the entries it finds, each with the outcome the
  environment gives a removal there; the walk ends at the first error.
\<close>

fun Walk ::
  "int \<Rightarrow> int \<Rightarrow> FileStore \<Rightarrow> (string \<times> FileInfo \<times> error option \<times> bool) list
     \<Rightarrow> FileStore \<times> error option" where
  "Walk lifeTime startTime s [] = (s, None)"
| "Walk lifeTime startTime s ((p, info, err, remove_fault) # rest) =
     (case Recover lifeTime startTime s p info err remove_fault of
        (s', Some e) \<Rightarrow> (s', Some e)
      | (s', None) \<Rightarrow> Walk lifeTime startTime s' rest)"

subsection \<open>Sequences of calls\<close>

datatype op =
    OpPut "byte list" "nat \<Rightarrow> Id option" int write_fault
  | OpGet Id bool
  | OpClose FileContent "error option"
  | OpDelete Id bool

text \<open>
  The state after a sequence of calls made one after the other. A panic in \<^verbatim>\<open>Close\<close> and a
  \<^verbatim>\<open>Delete\<close> that waits for ever end the sequence.
\<close>

fun run :: "FileStore \<Rightarrow> op list \<Rightarrow> FileStore" where
  "run s [] = s"
| "run s (OpPut content rnd now flt # ops) = run (fst (Put s content rnd now flt)) ops"
| "run s (OpGet ident open_fault # ops) = run (fst (Get s ident open_fault)) ops"
| "run s (OpClose c close_err # ops) =
     (case Close s c close_err of
        None \<Rightarrow> s
      | Some (s', r) \<Rightarrow> run s' ops)"
| "run s (OpDelete ident remove_fault # ops) =
     (case Delete s ident remove_fault of
        (s', Waits) \<Rightarrow> s'
      | (s', Returns r) \<Rightarrow> run s' ops)"

text \<open>
  The identifiers that the calls of a sequence have issued and not deleted since, read off
  what the calls return: a \<^verbatim>\<open>Put\<close> that returns an identifier issues it, a call of
  \<^verbatim>\<open>Delete\<close> withdraws its argument.
\<close>

fun issued :: "FileStore \<Rightarrow> op list \<Rightarrow> Id set \<Rightarrow> Id set" where
  "issued s [] L = L"
| "issued s (OpPut content rnd now flt # ops) L =
     (case Put s content rnd now flt of
        (s', Inl err) \<Rightarrow> issued s' ops L
      | (s', Inr ident) \<Rightarrow> issued s' ops (insert ident L))"
| "issued s (OpGet ident open_fault # ops) L = issued (fst (Get s ident open_fault)) ops L"
| "issued s (OpClose c close_err # ops) L =
     (case Close s c close_err of
        None \<Rightarrow> L
      | Some (s', r) \<Rightarrow> issued s' ops L)"
| "issued s (OpDelete ident remove_fault # ops) L =
     (case Delete s ident remove_fault of
        (s', Waits) \<Rightarrow> L - {ident}
      | (s', Returns r) \<Rightarrow> issued s' ops (L - {ident}))"

text \<open>The results of a sequence of \<^verbatim>\<open>Put\<close> calls, and the identifiers among them.\<close>

fun put_seq ::
  "FileStore \<Rightarrow> (byte list \<times> (nat \<Rightarrow> Id option) \<times> int \<times> write_fault) list \<Rightarrow> (error + Id) list" where
  "put_seq s [] = []"
| "put_seq s ((content, rnd, now, flt) # rest) =
     (case Put s content rnd now flt of
        (s', r) \<Rightarrow> r # put_seq s' rest)"

fun returned :: "(error + Id) list \<Rightarrow> Id list" where
  "returned [] = []"
| "returned (Inl err # rs) = returned rs"
| "returned (Inr ident # rs) = ident # returned rs"

text \<open>The sum of the sizes of all entries of an index.\<close>

definition total_size :: "(Id \<rightharpoonup> fileCache) \<Rightarrow> int" where
  "total_size c = (\<Sum>ident \<in> dom c. Size (header (the (c ident))))"

section \<open>The earlier index of paste.go\<close>

text \<open>
  \<^verbatim>\<open>PasteInfo\<close> and the package variable \<^verbatim>\<open>pastes\<close>, with the files, the timers armed by
  \<^verbatim>\<open>EndLifeAfter\<close> and the goroutines started by \<^verbatim>\<open>go id.EndLife()\<close>.
\<close>

record PasteInfo =
  InfoPath :: string
  Etag :: string
  ContentType :: string
  InfoModTime :: int

record Pastes =
  m :: "Id \<rightharpoonup> PasteInfo"
  files :: "string \<rightharpoonup> byte list"
  armed :: "(Id \<times> int) list"
  started :: "Id list"

definition Minute :: int where
  "Minute = 60 * 1000000000"

text \<open>\<^verbatim>\<open>%d\<close> of \<^verbatim>\<open>fmt.Sprintf\<close>, and \<^verbatim>\<open>Time.Unix\<close> on a nanosecond count.\<close>

function decimal :: "nat \<Rightarrow> string" where
  "decimal n =
     (if n < 10 then [char_of (48 + n)]
      else decimal (n div 10) @ [char_of (48 + n mod 10)])"
  by pat_completeness auto
termination
  by (relation "measure (\<lambda>n. n)") auto

declare decimal.simps [simp del]

definition fmt_d :: "int \<Rightarrow> string" where
  "fmt_d i = (if i < 0 then CHR ''-'' # decimal (nat (- i)) else decimal (nat i))"

definition Unix :: "int \<Rightarrow> int" where
  "Unix t = t div 1000000000"

text \<open>\<^verbatim>\<open>http.DetectContentType\<close> is a parameter.\<close>

definition GenPasteInfo :: "(byte list \<Rightarrow> string) \<Rightarrow> Id \<Rightarrow> int \<Rightarrow> byte list \<Rightarrow> PasteInfo" where
  "GenPasteInfo detect ident modTime head =
     (let ct = detect head
      in \<lparr>InfoPath = [],
          Etag = fmt_d (Unix modTime) @ ''-'' @ String ident,
          ContentType =
            (if ct = ''application/octet-stream'' then ''text-plain; charset=utf-8'' else ct),
          InfoModTime = modTime\<rparr>)"

function RandomId_loop :: "(Id \<rightharpoonup> PasteInfo) \<Rightarrow> (nat \<Rightarrow> Id option) \<Rightarrow> nat \<Rightarrow> error + Id" where
  "RandomId_loop pm rnd try =
     (if try < randTries then
        (case rnd try of
           None \<Rightarrow> Inl ErrRandRead
         | Some ident \<Rightarrow>
             if pm ident = None then Inr ident
             else RandomId_loop pm rnd (Suc try))
      else Inl ErrGaveUp)"
  by pat_completeness auto
termination
  by (relation "measure (\<lambda>(pm, rnd, try). randTries - try)") auto

declare RandomId_loop.simps [simp del]

definition RandomId :: "(Id \<rightharpoonup> PasteInfo) \<Rightarrow> (nat \<Rightarrow> Id option) \<Rightarrow> error + Id" where
  "RandomId pm rnd = RandomId_loop pm rnd 0"

definition EndLifeAfter :: "Pastes \<Rightarrow> Id \<Rightarrow> int \<Rightarrow> Pastes" where
  "EndLifeAfter w ident duration = w\<lparr>armed := armed w @ [(ident, duration)]\<rparr>"

definition EndLife :: "Pastes \<Rightarrow> Id \<Rightarrow> bool \<Rightarrow> Pastes" where
  "EndLife w ident remove_fault =
     (case os_Remove (files w) (Path ident) remove_fault of
        (d, None) \<Rightarrow> w\<lparr>files := d, m := (m w)(ident := None)\<rparr>
      | (d, Some err) \<Rightarrow> EndLifeAfter (w\<lparr>files := d\<rparr>) ident (2 * Minute))"

text \<open>
  \<^verbatim>\<open>walkFunc\<close> reads up to 512 bytes into a zeroed buffer; \<^verbatim>\<open>Read\<close> on an empty file
  reports end of file. \<open>now\<close> is \<^verbatim>\<open>time.Now()\<close> at the call.
\<close>

definition walkFunc ::
  "(byte list \<Rightarrow> string) \<Rightarrow> int \<Rightarrow> int \<Rightarrow> Pastes \<Rightarrow> string \<Rightarrow> FileInfo \<Rightarrow> error option
     \<Rightarrow> bool \<Rightarrow> bool \<Rightarrow> Pastes \<times> error option" where
  "walkFunc detect lifeTime now w filePath fileInfo err open_fault read_fault =
     (case err of
        Some e \<Rightarrow> (w, Some e)
      | None \<Rightarrow>
          if IsDir fileInfo then (w, None)
          else
            (case IdFromPath filePath of
               Inl e \<Rightarrow> (w, Some ErrIncompatibleId)
             | Inr ident \<Rightarrow>
                 (let modTime = fModTime fileInfo;
                      deathTime = modTime + lifeTime
                  in if deathTime < now then (w\<lparr>started := started w @ [ident]\<rparr>, None)
                     else
                       (case os_Open (files w) filePath open_fault of
                          Inl e \<Rightarrow> (w, Some e)
                        | Inr f \<Rightarrow>
                            if read_fault then (w, Some ErrOS)
                            else if f = [] then (w, Some ErrEOF)
                            else
                              (let read = take 512 (f @ replicate 512 0);
                                   lifeLeft = (if deathTime > now + lifeTime then lifeTime
                                               else deathTime - now);
                                   pasteInfo = GenPasteInfo detect ident modTime read
                               in (EndLifeAfter (w\<lparr>m := (m w)(ident \<mapsto> pasteInfo)\<rparr>)
                                     ident lifeLeft,
                                   None))))))"

section \<open>Sample data\<close>

text \<open>Concrete values at which the theorems below are instantiated.\<close>

definition Hour :: int where
  "Hour = 60 * Minute"

definition sample_id :: Id where
  "sample_id = (0x0a, 0xff, 0x10, 0x9c)"

definition other_id :: Id where
  "other_id = (0x0b, 0x00, 0x00, 0x01)"

definition sample_flt :: write_fault where
  "sample_flt = \<lparr>open_fails = False, written = 1024, write_fails = False, close_fails = False\<rparr>"

definition sample_store :: FileStore where
  "sample_store =
     \<lparr>cache = [sample_id \<mapsto>
                \<lparr>reading = 0, header = \<lparr>Size = 3, ModTime = 0\<rparr>, path = ''0a/ff109c''\<rparr>],
      stats = \<lparr>storage = 3, maxStorage = 100\<rparr>,
      disk = [''0a/ff109c'' \<mapsto> [1, 2, 3]], guards = [], timers = []\<rparr>"

section \<open>Facts about identifiers and paths\<close>

lemma nibble_hi_lt: "unat (drop_bit 4 (v::byte)) < 16"
proof -
  have "unat (drop_bit 4 v) = drop_bit 4 (unat v)" by (simp only: unat_drop_bit_eq)
  then have "unat (drop_bit 4 v) = unat v div 16" by (simp add: drop_bit_eq_div)
  moreover have "unat v < 256" using unsigned_less [of v, where ?'a = nat] by simp
  ultimately show ?thesis by simp
qed

lemma nibble_lo_lt: "unat ((v::byte) AND 0x0f) < 16"
proof -
  have "unat (v AND 15) \<le> unat (15 :: byte)"
    by (rule word_and_le1 [THEN word_le_nat_alt [THEN iffD1]])
  then show ?thesis by simp
qed

lemma low_mask: "(v::byte) AND 0x0f = take_bit 4 v"
proof -
  have "(15 :: byte) = mask 4" by (simp add: mask_eq_exp_minus_1)
  then show ?thesis by (simp add: take_bit_eq_mask)
qed

lemma nibbles_join: "push_bit 4 (drop_bit 4 (v::byte)) OR (v AND 0x0f) = v"
  unfolding low_mask by (rule bit_word_eqI) (auto simp add: bit_simps)

lemma lt16_cases: "(n::nat) < 16 \<Longrightarrow> n \<in> {0,1,2,3,4,5,6,7,8,9,10,11,12,13,14,15}"
  by simp arith

lemma fromHexChar_hextable: "n < 16 \<Longrightarrow> fromHexChar (hextable ! n) = Some (of_nat n)"
  by (drule lt16_cases) (auto simp add: fromHexChar_def hextable_def)

lemma hextable_not_slash: "n < 16 \<Longrightarrow> CHR ''/'' \<noteq> hextable ! n"
  by (drule lt16_cases) (auto simp add: hextable_def)

lemma fromHexChar_hi: "fromHexChar (hextable ! unat (drop_bit 4 (v::byte))) = Some (drop_bit 4 v)"
  using fromHexChar_hextable [OF nibble_hi_lt, of v] by simp

lemma fromHexChar_lo: "fromHexChar (hextable ! unat ((v::byte) AND 0x0f)) = Some (v AND 0x0f)"
  using fromHexChar_hextable [OF nibble_lo_lt, of v] by simp

lemma hex_decode_encode: "hex_DecodeString (hex_EncodeToString bs) = Some bs"
  by (induction bs) (simp_all add: fromHexChar_hi fromHexChar_lo nibbles_join)

lemma hex_encode_length: "length (hex_EncodeToString bs) = 2 * length bs"
  by (induction bs) simp_all

lemma hex_encode_no_slash: "CHR ''/'' \<notin> set (hex_EncodeToString bs)"
  by (induction bs) (simp_all add: hextable_not_slash nibble_hi_lt nibble_lo_lt)

lemma split_no_sep: "sep \<notin> set s \<Longrightarrow> strings_Split s sep = [s]"
  by (induction s) auto

lemma split_one_sep:
  "sep \<notin> set a \<Longrightarrow> sep \<notin> set b \<Longrightarrow> strings_Split (a @ sep # b) sep = [a, b]"
  by (induction a) (auto simp add: split_no_sep)

lemma id_copy_slice: "id_copy (id_slice ident) = ident"
  by (cases ident) (simp add: id_copy_def)

lemma String_length: "length (String ident) = 8"
  by (cases ident) (simp add: String_def)

lemma Path_eq: "Path ident = take 2 (String ident) @ CHR ''/'' # drop 2 (String ident)"
proof -
  have "take 2 (String ident) \<noteq> []" "drop 2 (String ident) \<noteq> []"
    using String_length [of ident] by auto
  then show ?thesis by (simp add: Path_def path_Join_def Let_def)
qed

lemma Path_levels:
  "Path (b0, b1, b2, b3) = hex_EncodeToString [b0] @ ''/'' @ hex_EncodeToString [b1, b2, b3]"
  by (simp add: Path_eq String_def)

lemma Path_split:
  "strings_Split (Path ident) filepath_Separator = [take 2 (String ident), drop 2 (String ident)]"
proof -
  have "CHR ''/'' \<notin> set (String ident)"
    by (simp add: String_def hex_encode_no_slash)
  then have "CHR ''/'' \<notin> set (take 2 (String ident))" "CHR ''/'' \<notin> set (drop 2 (String ident))"
    by (auto dest: in_set_takeD in_set_dropD)
  then show ?thesis
    unfolding Path_eq filepath_Separator_def by (rule split_one_sep)
qed

lemma IdFromString_String: "IdFromString (String ident) = Inr ident"
proof -
  have "hex_DecodeString (String ident) = Some (id_slice ident)"
    by (simp add: String_def hex_decode_encode)
  moreover have "length (id_slice ident) = rawIdSize"
    by (cases ident) (simp add: rawIdSize_def idSize_def)
  ultimately show ?thesis
    by (simp add: IdFromString_def String_length idSize_def id_copy_slice)
qed

section \<open>Facts about the store\<close>

lemma total_size_insert:
  assumes "c ident = None"
  shows "total_size (c(ident \<mapsto> e)) = total_size c + Size (header e)"
proof -
  have fin: "finite (dom c)" by simp
  have notin: "ident \<notin> dom c" using assms by (simp add: domIff)
  have A: "total_size (c(ident \<mapsto> e)) =
        (\<Sum>i \<in> insert ident (dom c). Size (header (the ((c(ident \<mapsto> e)) i))))"
    by (simp add: total_size_def)
  have B: "(\<Sum>i \<in> insert ident (dom c). Size (header (the ((c(ident \<mapsto> e)) i)))) =
        Size (header e) + (\<Sum>i \<in> dom c. Size (header (the ((c(ident \<mapsto> e)) i))))"
    using fin notin by simp
  have C: "(\<Sum>i \<in> dom c. Size (header (the ((c(ident \<mapsto> e)) i)))) = total_size c"
    unfolding total_size_def using notin by (intro sum.cong) auto
  from A B C show ?thesis by linarith
qed

lemma total_size_remove:
  assumes "c ident = Some e"
  shows "total_size (c(ident := None)) = total_size c - Size (header e)"
proof -
  let ?c' = "c(ident := None)"
  have "?c' ident = None" by simp
  then have "total_size (?c'(ident \<mapsto> e)) = total_size ?c' + Size (header e)"
    by (rule total_size_insert)
  moreover have "?c'(ident \<mapsto> e) = c" using assms by (auto simp add: fun_eq_iff)
  ultimately show ?thesis by simp
qed

lemma total_size_empty: "total_size Map.empty = 0"
  by (simp add: total_size_def)

subsection \<open>Identifier generation\<close>

lemma randomID_loop_fresh: "randomID_loop c rnd t = Inr ident \<Longrightarrow> c ident = None"
proof (induction c rnd t rule: randomID_loop.induct)
  case (1 c rnd t)
  then show ?case
    by (subst (asm) (2) randomID_loop.simps) (auto split: if_splits option.splits)
qed

lemma randomID_loop_error: "randomID_loop c rnd t = Inl e \<Longrightarrow> e = ErrNoUnusedIDFound"
proof (induction c rnd t rule: randomID_loop.induct)
  case (1 c rnd t)
  then show ?case
    by (subst (asm) (2) randomID_loop.simps) (auto split: if_splits option.splits)
qed

lemma randomID_loop_cong:
  "(\<And>i. t \<le> i \<Longrightarrow> i < randTries \<Longrightarrow> rnd i = rnd' i)
    \<Longrightarrow> randomID_loop c rnd t = randomID_loop c rnd' t"
proof (induction c rnd t rule: randomID_loop.induct)
  case (1 c rnd t)
  show ?case
  proof (cases "t < randTries")
    case True
    have rest: "\<And>i. Suc t \<le> i \<Longrightarrow> i < randTries \<Longrightarrow> rnd i = rnd' i"
      using 1(3) by simp
    show ?thesis
    proof (cases "rnd t")
      case None
      then have "rnd' t = None" using 1(3) [of t] True by simp
      with None True 1(1) [OF True None rest] show ?thesis
        by (simp add: randomID_loop.simps [of c rnd t] randomID_loop.simps [of c rnd' t])
    next
      case (Some ident)
      then have other: "rnd' t = Some ident" using 1(3) [of t] True by simp
      show ?thesis
      proof (cases "c ident = None")
        case free: True
        with True other Some show ?thesis
          by (simp add: randomID_loop.simps [of c rnd t] randomID_loop.simps [of c rnd' t])
      next
        case False
        with True other Some 1(2) [OF True Some False rest] show ?thesis
          by (auto simp add: randomID_loop.simps [of c rnd t] randomID_loop.simps [of c rnd' t])
      qed
    qed
  next
    case False
    then show ?thesis
      by (simp add: randomID_loop.simps [of c rnd t] randomID_loop.simps [of c rnd' t])
  qed
qed

lemma randomID_loop_exhausted:
  "(\<And>i. t \<le> i \<Longrightarrow> i < randTries \<Longrightarrow> (case rnd i of None \<Rightarrow> True | Some ident \<Rightarrow> c ident \<noteq> None))
    \<Longrightarrow> randomID_loop c rnd t = Inl ErrNoUnusedIDFound"
proof (induction c rnd t rule: randomID_loop.induct)
  case (1 c rnd t)
  show ?case
  proof (cases "t < randTries")
    case True
    have here: "case rnd t of None \<Rightarrow> True | Some ident \<Rightarrow> c ident \<noteq> None"
      using 1(3) [of t] True by simp
    have rest: "\<And>i. Suc t \<le> i \<Longrightarrow> i < randTries \<Longrightarrow> (case rnd i of None \<Rightarrow> True | Some ident \<Rightarrow> c ident \<noteq> None)"
      using 1(3) by simp
    show ?thesis
    proof (cases "rnd t")
      case None
      with True 1(1) [OF True None rest] show ?thesis
        by (simp add: randomID_loop.simps [of c rnd t])
    next
      case (Some ident)
      with here have "c ident \<noteq> None" by simp
      with True Some 1(2) [OF True Some _ rest] show ?thesis
        by (auto simp add: randomID_loop.simps [of c rnd t])
    qed
  next
    case False
    then show ?thesis by (simp add: randomID_loop.simps [of c rnd t])
  qed
qed

lemma randomID_loop_drawn:
  "randomID_loop c rnd t = Inr ident \<Longrightarrow> \<exists>i. t \<le> i \<and> i < randTries \<and> rnd i = Some ident"
proof (induction c rnd t rule: randomID_loop.induct)
  case (1 c rnd t)
  show ?case
  proof (cases "t < randTries")
    case False
    with 1(3) show ?thesis by (simp add: randomID_loop.simps [of c rnd t])
  next
    case True
    show ?thesis
    proof (cases "rnd t")
      case None
      with True 1(3) have "randomID_loop c rnd (Suc t) = Inr ident"
        by (simp add: randomID_loop.simps [of c rnd t])
      from 1(1) [OF True None this] show ?thesis by (metis Suc_leD)
    next
      case (Some j)
      show ?thesis
      proof (cases "c j = None")
        case free: True
        with True Some 1(3) have "j = ident" by (simp add: randomID_loop.simps [of c rnd t])
        with True Some show ?thesis by blast
      next
        case False
        with True Some 1(3) have "randomID_loop c rnd (Suc t) = Inr ident"
          by (auto simp add: randomID_loop.simps [of c rnd t])
        from 1(2) [OF True Some False this] show ?thesis by (metis Suc_leD)
      qed
    qed
  qed
qed

lemma randomID_fresh: "randomID c rnd = Inr ident \<Longrightarrow> c ident = None"
  unfolding randomID_def by (rule randomID_loop_fresh)

lemma randomID_error: "randomID c rnd = Inl e \<Longrightarrow> e = ErrNoUnusedIDFound"
  unfolding randomID_def by (rule randomID_loop_error)

subsection \<open>Single calls\<close>

lemma writeNewFile_ok:
  "writeNewFile d p data flt = (d', None) \<Longrightarrow> d p = None \<and> d' = d(p \<mapsto> data)"
  by (auto simp add: writeNewFile_def Let_def min_def split: if_splits)

lemma writeNewFile_succeeds:
  "d p = None \<Longrightarrow> \<not> open_fails flt \<Longrightarrow> length data \<le> written flt \<Longrightarrow> \<not> write_fails flt
    \<Longrightarrow> \<not> close_fails flt \<Longrightarrow> writeNewFile d p data flt = (d(p \<mapsto> data), None)"
  by (simp add: writeNewFile_def Let_def min_def)

lemma Put_Inr:
  assumes "Put s content rnd now flt = (s', Inr ident)"
  shows "cache s ident = None"
    and "s' = s\<lparr>disk := (disk s)(Path ident \<mapsto> content),
                stats := makeSpaceFor (stats s) (int (length content)),
                cache := (cache s)(ident \<mapsto>
                  \<lparr>reading = 0, header = genHeader ident now (int (length content)),
                   path = Path ident\<rparr>)\<rparr>"
    and "hasSpaceFor (stats s) (int (length content))"
    and "disk s (Path ident) = None"
proof -
  from assms have sp: "hasSpaceFor (stats s) (int (length content))"
    by (auto simp add: Put_def Let_def split: if_splits)
  from assms sp obtain i where r: "randomID (cache s) rnd = Inr i"
    by (cases "randomID (cache s) rnd") (auto simp add: Put_def Let_def)
  from assms sp r obtain d where
    w: "writeNewFile (disk s) (Path i) content flt = (d, None)" and i: "i = ident"
    and s': "s' = s\<lparr>disk := d,
                stats := makeSpaceFor (stats s) (int (length content)),
                cache := (cache s)(i \<mapsto>
                  \<lparr>reading = 0, header = genHeader i now (int (length content)),
                   path = Path i\<rparr>)\<rparr>"
    by (cases "writeNewFile (disk s) (Path i) content flt")
       (auto simp add: Put_def Let_def Path_def split: option.splits)
  from r i show "cache s ident = None" by (simp add: randomID_fresh)
  from w i s' show "s' = s\<lparr>disk := (disk s)(Path ident \<mapsto> content),
                stats := makeSpaceFor (stats s) (int (length content)),
                cache := (cache s)(ident \<mapsto>
                  \<lparr>reading = 0, header = genHeader ident now (int (length content)),
                   path = Path ident\<rparr>)\<rparr>"
    by (simp add: writeNewFile_ok)
  from sp show "hasSpaceFor (stats s) (int (length content))" .
  from w i show "disk s (Path ident) = None" by (simp add: writeNewFile_ok)
qed

lemma Put_Inl:
  assumes "Put s content rnd now flt = (s', Inl e)"
  shows "cache s' = cache s \<and> stats s' = stats s \<and> guards s' = guards s \<and> timers s' = timers s"
proof (cases "hasSpaceFor (stats s) (int (length content))")
  case False
  with assms show ?thesis by (simp add: Put_def Let_def)
next
  case True
  show ?thesis
  proof (cases "randomID (cache s) rnd")
    case (Inl a)
    with True assms show ?thesis by (auto simp add: Put_def Let_def)
  next
    case (Inr i)
    with True assms show ?thesis
      by (cases "writeNewFile (disk s) (Path i) content flt")
         (auto simp add: Put_def Let_def Path_def split: option.splits)
  qed
qed

lemma Put_quota_error:
  "\<not> hasSpaceFor (stats s) (int (length content))
    \<Longrightarrow> Put s content rnd now flt = (s, Inl ErrReachedMax)"
  by (simp add: Put_def Let_def)

lemma Put_succeeds:
  assumes "hasSpaceFor (stats s) (int (length content))"
    and "randomID (cache s) rnd = Inr ident"
    and "disk s (Path ident) = None"
    and "\<not> open_fails flt" "length content \<le> written flt" "\<not> write_fails flt" "\<not> close_fails flt"
  shows "Put s content rnd now flt =
     (s\<lparr>disk := (disk s)(Path ident \<mapsto> content),
        stats := makeSpaceFor (stats s) (int (length content)),
        cache := (cache s)(ident \<mapsto>
          \<lparr>reading = 0, header = genHeader ident now (int (length content)),
           path = Path ident\<rparr>)\<rparr>, Inr ident)"
proof -
  have "writeNewFile (disk s) (Path ident) content flt = ((disk s)(Path ident \<mapsto> content), None)"
    using assms(3-7) by (rule writeNewFile_succeeds)
  with assms(1,2) show ?thesis
    by (simp add: Put_def Let_def Path_def)
qed

lemma Put_not_quota:
  assumes "hasSpaceFor (stats s) (int (length content))"
  shows "snd (Put s content rnd now flt) \<noteq> Inl ErrReachedMax"
proof (cases "randomID (cache s) rnd")
  case (Inl e)
  with assms randomID_error [OF Inl] show ?thesis by (simp add: Put_def Let_def)
next
  case (Inr i)
  with assms show ?thesis
    by (auto simp add: Put_def Let_def writeNewFile_def split: if_splits)
qed

lemma Get_absent: "cache s ident = None \<Longrightarrow> Get s ident f = (s, Inl ErrPasteNotFound)"
  by (simp add: Get_def)

lemma Get_present:
  "cache s ident = Some cached \<Longrightarrow> disk s (path cached) = Some bytes \<Longrightarrow>
   Get s ident False =
     (s\<lparr>guards := guards s @ [reading cached + 1]\<rparr>,
      Inr (\<lparr>osfile = bytes, readingp = length (guards s)\<rparr>, header cached))"
  by (simp add: Get_def os_Open_def)

lemma Delete_absent:
  "cache s ident = None \<Longrightarrow> Delete s ident f = (s, Returns (Some ErrPasteNotFound))"
  by (simp add: Delete_def)

lemma Get_state:
  "cache (fst (Get s ident f)) = cache s \<and> stats (fst (Get s ident f)) = stats s
   \<and> disk (fst (Get s ident f)) = disk s \<and> timers (fst (Get s ident f)) = timers s"
  by (simp add: Get_def split: option.splits sum.splits)

lemma Close_state:
  "Close s c e = Some (s', r) \<Longrightarrow>
     cache s' = cache s \<and> stats s' = stats s \<and> disk s' = disk s \<and> timers s' = timers s"
  by (auto simp add: Close_def Let_def split: if_splits)

lemma Delete_present:
  assumes "cache s ident = Some cached"
  shows "cache (fst (Delete s ident f)) = (cache s)(ident := None)"
    and "stats (fst (Delete s ident f)) = freeSpace (stats s) (Size (header cached))"
    and "guards (fst (Delete s ident f)) = guards s"
    and "timers (fst (Delete s ident f)) = timers s"
  using assms by (simp_all add: Delete_def Let_def os_Remove_def split: option.splits)

lemma Delete_absent_state: "cache s ident = None \<Longrightarrow> fst (Delete s ident f) = s"
  by (simp add: Delete_def)

subsection \<open>Sequences of calls\<close>

lemma Put_quota:
  assumes "storage (stats s) = total_size (cache s)"
  shows "storage (stats (fst (Put s content rnd now flt))) =
         total_size (cache (fst (Put s content rnd now flt)))"
proof -
  obtain s' r where p: "Put s content rnd now flt = (s', r)"
    by (cases "Put s content rnd now flt")
  show ?thesis
  proof (cases r)
    case (Inl e)
    with p assms Put_Inl [of s content rnd now flt s' e] show ?thesis by simp
  next
    case (Inr ident)
    with p have q: "Put s content rnd now flt = (s', Inr ident)" by simp
    from Put_Inr(1) [OF q] Put_Inr(2) [OF q] assms p show ?thesis
      by (simp add: total_size_insert makeSpaceFor_def genHeader_def)
  qed
qed

lemma Delete_quota:
  assumes "storage (stats s) = total_size (cache s)"
  shows "storage (stats (fst (Delete s ident f))) = total_size (cache (fst (Delete s ident f)))"
proof (cases "cache s ident")
  case None
  with assms show ?thesis by (simp add: Delete_absent_state)
next
  case (Some cached)
  with assms show ?thesis
    by (simp add: Delete_present [OF Some] total_size_remove freeSpace_def)
qed

lemma run_quota:
  "storage (stats s) = total_size (cache s)
    \<Longrightarrow> storage (stats (run s ops)) = total_size (cache (run s ops))"
proof (induction ops arbitrary: s)
  case Nil
  then show ?case by simp
next
  case (Cons x ops)
  show ?case
  proof (cases x)
    case (OpPut content rnd now flt)
    with Cons.IH [OF Put_quota [OF Cons.prems]] show ?thesis by simp
  next
    case (OpGet ident f)
    have "storage (stats (fst (Get s ident f))) = total_size (cache (fst (Get s ident f)))"
      using Cons.prems by (simp add: Get_state)
    with OpGet Cons.IH show ?thesis by simp
  next
    case (OpClose c e)
    show ?thesis
    proof (cases "Close s c e")
      case None
      with OpClose Cons.prems show ?thesis by simp
    next
      case (Some a)
      obtain s' r where a: "a = (s', r)" by (cases a)
      with Some Close_state [of s c e s' r] Cons.prems
      have "storage (stats s') = total_size (cache s')" by simp
      with OpClose Some a Cons.IH show ?thesis by simp
    qed
  next
    case (OpDelete ident f)
    obtain s' r where d: "Delete s ident f = (s', r)" by (cases "Delete s ident f")
    with Delete_quota [OF Cons.prems, of ident f]
    have inv: "storage (stats s') = total_size (cache s')" by simp
    show ?thesis
    proof (cases r)
      case Waits
      with OpDelete d inv show ?thesis by simp
    next
      case (Returns e)
      with OpDelete d Cons.IH [OF inv] show ?thesis by simp
    qed
  qed
qed

lemma run_issued: "dom (cache (run s ops)) = issued s ops (dom (cache s))"
proof (induction ops arbitrary: s)
  case Nil
  then show ?case by simp
next
  case (Cons x ops)
  show ?case
  proof (cases x)
    case (OpPut content rnd now flt)
    obtain s' r where p: "Put s content rnd now flt = (s', r)"
      by (cases "Put s content rnd now flt")
    show ?thesis
    proof (cases r)
      case (Inl e)
      with p Put_Inl [of s content rnd now flt s' e] have "dom (cache s') = dom (cache s)" by simp
      with OpPut p Inl Cons.IH [of s'] show ?thesis by simp
    next
      case (Inr ident)
      with p have q: "Put s content rnd now flt = (s', Inr ident)" by simp
      have "dom (cache s') = insert ident (dom (cache s))"
        by (simp add: Put_Inr(2) [OF q])
      with OpPut p Inr Cons.IH [of s'] show ?thesis by simp
    qed
  next
    case (OpGet ident f)
    with Cons.IH [of "fst (Get s ident f)"] show ?thesis by (simp add: Get_state)
  next
    case (OpClose c e)
    show ?thesis
    proof (cases "Close s c e")
      case None
      with OpClose show ?thesis by simp
    next
      case (Some a)
      obtain s' r where a: "a = (s', r)" by (cases a)
      with Some Close_state [of s c e s' r] have "cache s' = cache s" by simp
      with OpClose Some a Cons.IH [of s'] show ?thesis by simp
    qed
  next
    case (OpDelete ident f)
    obtain s' r where d: "Delete s ident f = (s', r)" by (cases "Delete s ident f")
    have dm: "dom (cache s') = dom (cache s) - {ident}"
    proof (cases "cache s ident")
      case None
      with d Delete_absent_state [of s ident f] show ?thesis by (auto simp add: domIff)
    next
      case (Some cached)
      from Delete_present(1) [OF Some, of f] d show ?thesis by simp
    qed
    show ?thesis
    proof (cases r)
      case Waits
      with OpDelete d dm show ?thesis by simp
    next
      case (Returns e)
      with OpDelete d dm Cons.IH [of s'] show ?thesis by simp
    qed
  qed
qed

lemma run_unread:
  "(\<And>i e. cache s i = Some e \<Longrightarrow> reading e = 0)
    \<Longrightarrow> cache (run s ops) i = Some e \<Longrightarrow> reading e = 0"
proof (induction ops arbitrary: s)
  case Nil
  then show ?case by simp
next
  case (Cons x ops)
  have keep: "\<And>s'. (\<And>i e. cache s' i = Some e \<Longrightarrow> reading e = 0)
                \<Longrightarrow> cache (run s' ops) i = Some e \<Longrightarrow> reading e = 0"
    using Cons.IH by blast
  show ?case
  proof (cases x)
    case (OpPut content rnd now flt)
    obtain s' r where p: "Put s content rnd now flt = (s', r)"
      by (cases "Put s content rnd now flt")
    have "\<And>i e. cache s' i = Some e \<Longrightarrow> reading e = 0"
    proof (cases r)
      case (Inl err)
      fix i e assume "cache s' i = Some e"
      with Inl p Put_Inl [of s content rnd now flt s' err] Cons.prems(1) show "reading e = 0"
        by simp
    next
      case (Inr ident)
      fix i e assume c: "cache s' i = Some e"
      from Inr p have q: "Put s content rnd now flt = (s', Inr ident)" by simp
      from c Cons.prems(1) show "reading e = 0"
        by (auto simp add: Put_Inr(2) [OF q] split: if_splits)
    qed
    from keep [OF this] Cons.prems(2) OpPut p show ?thesis by simp
  next
    case (OpGet ident f)
    have "\<And>i e. cache (fst (Get s ident f)) i = Some e \<Longrightarrow> reading e = 0"
      using Cons.prems(1) by (simp add: Get_state)
    from keep [OF this] Cons.prems(2) OpGet show ?thesis by simp
  next
    case (OpClose c err)
    show ?thesis
    proof (cases "Close s c err")
      case None
      with OpClose Cons.prems show ?thesis by simp
    next
      case (Some a)
      obtain s' r where a: "a = (s', r)" by (cases a)
      with Some Close_state [of s c err s' r] have "cache s' = cache s" by simp
      with Cons.prems(1) have "\<And>i e. cache s' i = Some e \<Longrightarrow> reading e = 0" by simp
      from keep [OF this] Cons.prems(2) OpClose Some a show ?thesis by simp
    qed
  next
    case (OpDelete ident f)
    obtain s' r where d: "Delete s ident f = (s', r)" by (cases "Delete s ident f")
    have sub: "\<And>i e. cache s' i = Some e \<Longrightarrow> reading e = 0"
    proof -
      fix i e assume c: "cache s' i = Some e"
      show "reading e = 0"
      proof (cases "cache s ident")
        case None
        with d c Delete_absent_state [of s ident f] Cons.prems(1) show ?thesis by simp
      next
        case (Some cached)
        from Delete_present(1) [OF Some, of f] d c Cons.prems(1) show ?thesis
          by (auto split: if_splits)
      qed
    qed
    show ?thesis
    proof (cases r)
      case Waits
      with OpDelete d Cons.prems(2) sub show ?thesis by simp
    next
      case (Returns err)
      with keep [OF sub] Cons.prems(2) OpDelete d show ?thesis by simp
    qed
  qed
qed

lemma put_seq_distinct:
  "distinct (returned (put_seq s puts)) \<and> set (returned (put_seq s puts)) \<inter> dom (cache s) = {}"
proof (induction puts arbitrary: s)
  case Nil
  then show ?case by simp
next
  case (Cons x puts)
  obtain content rnd now flt where x: "x = (content, rnd, now, flt)" by (cases x)
  obtain s' r where p: "Put s content rnd now flt = (s', r)"
    by (cases "Put s content rnd now flt")
  note ih = Cons.IH [of s']
  show ?case
  proof (cases r)
    case (Inl e)
    with p Put_Inl [of s content rnd now flt s' e] have "cache s' = cache s" by simp
    with ih x p Inl show ?thesis by simp
  next
    case (Inr ident)
    with p have q: "Put s content rnd now flt = (s', Inr ident)" by simp
    have dm: "dom (cache s') = insert ident (dom (cache s))"
      by (simp add: Put_Inr(2) [OF q])
    have fresh: "ident \<notin> dom (cache s)"
      using Put_Inr(1) [OF q] by (simp add: domIff)
    from ih dm have "ident \<notin> set (returned (put_seq s' puts))"
      and "set (returned (put_seq s' puts)) \<inter> dom (cache s) = {}"
      and "distinct (returned (put_seq s' puts))" by auto
    with fresh x p Inr show ?thesis by simp
  qed
qed

subsection \<open>Recovery\<close>









subsection \<open>The earlier index\<close>

text \<open>
  \<^verbatim>\<open>RandomId\<close> returns only identifiers absent from \<^verbatim>\<open>pastes.m\<close>, gives up after
  \<^verbatim>\<open>randTries\<close> collisions, and unlike \<^verbatim>\<open>randomID\<close> returns the error of a failed read at
  once. \<^verbatim>\<open>walkFunc\<close> arms the deletion after the remaining life, capped at the lifetime.
\<close>

lemma RandomId_loop_fresh: "RandomId_loop pm rnd t = Inr ident \<Longrightarrow> pm ident = None"
proof (induction pm rnd t rule: RandomId_loop.induct)
  case (1 pm rnd t)
  then show ?case
    by (subst (asm) (2) RandomId_loop.simps) (auto split: if_splits option.splits)
qed

lemma RandomId_loop_exhausted:
  "(\<And>i. t \<le> i \<Longrightarrow> i < randTries \<Longrightarrow> (\<exists>j. rnd i = Some j \<and> pm j \<noteq> None))
    \<Longrightarrow> RandomId_loop pm rnd t = Inl ErrGaveUp"
proof (induction pm rnd t rule: RandomId_loop.induct)
  case (1 pm rnd t)
  show ?case
  proof (cases "t < randTries")
    case True
    from 1(2) [of t] True obtain j where j: "rnd t = Some j" "pm j \<noteq> None" by auto
    have rest: "\<And>i. Suc t \<le> i \<Longrightarrow> i < randTries \<Longrightarrow> (\<exists>j. rnd i = Some j \<and> pm j \<noteq> None)"
      using 1(2) by simp
    from True j 1(1) [OF True j(1) j(2) rest] show ?thesis
      by (auto simp add: RandomId_loop.simps [of pm rnd t])
  next
    case False
    then show ?thesis by (simp add: RandomId_loop.simps [of pm rnd t])
  qed
qed

lemma RandomId_fresh: "RandomId pm rnd = Inr ident \<Longrightarrow> pm ident = None"
  unfolding RandomId_def by (rule RandomId_loop_fresh)

lemma RandomId_read_error: "rnd 0 = None \<Longrightarrow> RandomId pm rnd = Inl ErrRandRead"
  by (simp add: RandomId_def RandomId_loop.simps [of pm rnd 0] randTries_def)

lemma walkFunc_lifeLeft:
  assumes "walkFunc detect lifeTime now w p info None open_fault read_fault = (w', None)"
    and "\<not> IsDir info" and "\<not> fModTime info + lifeTime < now"
  shows "\<exists>ident. IdFromPath p = Inr ident \<and> m w' ident \<noteq> None
           \<and> armed w' = armed w @ [(ident, min lifeTime (fModTime info + lifeTime - now))]"
proof (cases "IdFromPath p")
  case (Inl e)
  with assms show ?thesis by (simp add: walkFunc_def)
next
  case (Inr ident)
  with assms show ?thesis
    by (auto simp add: walkFunc_def Let_def EndLifeAfter_def min_def
        split: sum.splits if_splits)
qed

subsection \<open>Evaluation at the sample data\<close>

lemmas eval_defs =
  Put_def Get_def Delete_def Close_def newStore_def hasSpaceFor_def makeSpaceFor_def freeSpace_def
  genHeader_def randomID_def randomID_loop.simps randTries_def writeNewFile_def os_Remove_def
  os_Open_def String_def Path_def path_Join_def hextable_def drop_bit_eq_div Let_def
  sample_id_def sample_flt_def sample_store_def

lemmas recover_defs =
  Recover_def IdFromString_def IdFromPath_def filepath_Separator_def idSize_def rawIdSize_def
  id_copy_def fromHexChar_def SetupPasteDeletion_def Hour_def Minute_def other_id_def

lemma sample_Path: "Path sample_id = ''0a/ff109c''"
  by (simp add: eval_defs)

lemma sample_put:
  "Put (newStore 100 Map.empty) [1, 2, 3] (\<lambda>t. Some sample_id) 0 sample_flt
     = (sample_store, Inr sample_id)"
  by (simp add: eval_defs)





lemma sample_retry:
  "randomID (cache sample_store) (\<lambda>t. if t < 3 then Some sample_id else Some other_id)
     = Inr other_id"
  by (simp add: eval_defs other_id_def)

lemma sample_put_two:
  "put_seq (newStore 100 Map.empty)
     [([1, 2, 3], \<lambda>t. Some sample_id, 0, sample_flt),
      ([4, 5], \<lambda>t. if t < 3 then Some sample_id else Some other_id, 1, sample_flt)]
   = [Inr sample_id, Inr other_id]"
  by (simp add: eval_defs other_id_def)

text \<open>
  The recovery example of the specification: a lifetime of twelve hours and three files, one
  past its death time, one with one hour left and one with eleven. The first is removed
  and left out of the index; the other two are indexed and armed for their remaining
  time. A file that does not fit the maximum ends recovery with \<^verbatim>\<open>ErrReachedMax\<close>.
\<close>

lemma recovery_three_files:
  "Walk (12 * Hour) (100 * Hour)
      (newStore 100 [''0a/ff109c'' \<mapsto> [1, 2, 3], ''0b/000001'' \<mapsto> [4, 5], ''0b/000002'' \<mapsto> [6]])
      [(''0a'', \<lparr>IsDir = True, fModTime = 80 * Hour, fSize = 4096\<rparr>, None, False),
       (''0a/ff109c'', \<lparr>IsDir = False, fModTime = 80 * Hour, fSize = 3\<rparr>, None, False),
       (''0b'', \<lparr>IsDir = True, fModTime = 99 * Hour, fSize = 4096\<rparr>, None, False),
       (''0b/000001'', \<lparr>IsDir = False, fModTime = 89 * Hour, fSize = 2\<rparr>, None, False),
       (''0b/000002'', \<lparr>IsDir = False, fModTime = 99 * Hour, fSize = 1\<rparr>, None, False)]
   = (\<lparr>cache = [other_id \<mapsto> \<lparr>reading = 0, header = \<lparr>Size = 2, ModTime = 89 * Hour\<rparr>,
                               path = ''0b/000001''\<rparr>,
                 (0x0b, 0x00, 0x00, 0x02) \<mapsto>
                   \<lparr>reading = 0, header = \<lparr>Size = 1, ModTime = 99 * Hour\<rparr>,
                    path = ''0b/000002''\<rparr>],
        stats = \<lparr>storage = 3, maxStorage = 100\<rparr>,
        disk = [''0b/000001'' \<mapsto> [4, 5], ''0b/000002'' \<mapsto> [6]],
        guards = [],
        timers = [(other_id, 1 * Hour), ((0x0b, 0x00, 0x00, 0x02), 11 * Hour)]\<rparr>, None)"
  by (simp add: recover_defs eval_defs fun_upd_twist)

lemma recovery_over_quota:
  "Recover (12 * Hour) (100 * Hour) (newStore 2 [''0a/ff109c'' \<mapsto> [1, 2, 3]]) ''0a/ff109c''
      \<lparr>IsDir = False, fModTime = 89 * Hour, fSize = 3\<rparr> None False
   = (newStore 2 [''0a/ff109c'' \<mapsto> [1, 2, 3]], Some ErrReachedMax)"
  by (simp add: recover_defs eval_defs)

section \<open>The claims\<close>

text \<open>
  Claim C1 (round trip). Whenever \<^verbatim>\<open>Put\<close> of a byte sequence succeeds and returns an
  identifier, which requires that the sequence fits the remaining quota, \<^verbatim>\<open>Get\<close> of that
  identifier in the resulting store succeeds, provided the file can be opened, and the
  handle it returns holds exactly the bytes that were put; the header records their number.
\<close>

theorem put_get_roundtrip:
  assumes "Put s content rnd now flt = (s', Inr ident)"
  shows "Get s' ident False =
           (s'\<lparr>guards := guards s' @ [1]\<rparr>,
            Inr (\<lparr>osfile = content, readingp = length (guards s')\<rparr>,
                 genHeader ident now (int (length content))))"
proof -
  let ?e = "\<lparr>reading = 0, header = genHeader ident now (int (length content)),
             path = Path ident\<rparr>"
  have "cache s' ident = Some ?e" and "disk s' (path ?e) = Some content"
    by (simp_all add: Put_Inr(2) [OF assms])
  from Get_present [OF this] show ?thesis by simp
qed

theorem put_get_roundtrip_witness:
  "Put (newStore 100 Map.empty) [1, 2, 3] (\<lambda>t. Some sample_id) 0 sample_flt
     = (sample_store, Inr sample_id)
   \<and> Get sample_store sample_id False =
       (sample_store\<lparr>guards := [1]\<rparr>,
        Inr (\<lparr>osfile = [1, 2, 3], readingp = 0\<rparr>, \<lparr>Size = 3, ModTime = 0\<rparr>))"
  using put_get_roundtrip [OF sample_put] sample_put
  by (simp add: genHeader_def sample_store_def)

text \<open>
  Claim C2 (quota conservation). After every sequence of \<^verbatim>\<open>Put\<close>, \<^verbatim>\<open>Get\<close>, \<^verbatim>\<open>Close\<close> and
  \<^verbatim>\<open>Delete\<close> calls on a store that starts with nothing indexed, whatever each call
  returned, the running total of the statistics equals the sum of the sizes of the entries
  in the index. The sequence is arbitrary, so this holds after each single call of it.
\<close>

theorem quota_conservation:
  "storage (stats (run (newStore maxBytes d) ops)) = total_size (cache (run (newStore maxBytes d) ops))"
  by (rule run_quota) (simp add: newStore_def total_size_empty)

theorem quota_conservation_witness:
  "storage (stats (run (newStore 100 Map.empty)
      [OpPut [1, 2, 3] (\<lambda>t. Some sample_id) 0 sample_flt])) = 3
   \<and> total_size (cache (run (newStore 100 Map.empty)
      [OpPut [1, 2, 3] (\<lambda>t. Some sample_id) 0 sample_flt])) = 3
   \<and> snd (Delete sample_store sample_id True) = Returns (Some ErrOS)
   \<and> storage (stats (run (newStore 100 Map.empty)
      [OpPut [1, 2, 3] (\<lambda>t. Some sample_id) 0 sample_flt, OpDelete sample_id True])) = 0
   \<and> total_size (cache (run (newStore 100 Map.empty)
      [OpPut [1, 2, 3] (\<lambda>t. Some sample_id) 0 sample_flt, OpDelete sample_id True])) = 0"
  using quota_conservation [of 100 Map.empty "[OpPut [1, 2, 3] (\<lambda>t. Some sample_id) 0 sample_flt]"]
    quota_conservation [of 100 Map.empty
      "[OpPut [1, 2, 3] (\<lambda>t. Some sample_id) 0 sample_flt, OpDelete sample_id True]"]
  by (simp add: sample_put sample_store_def Delete_def freeSpace_def os_Remove_def Let_def)

text \<open>
  Claim C3 (capacity boundary). With a maximum of 100 bytes and a running total of zero,
  \<^verbatim>\<open>Put\<close> of 101 bytes returns \<^verbatim>\<open>ErrReachedMax\<close> and leaves the whole state, files included,
  as it was. \<^verbatim>\<open>Put\<close> of 100 bytes is never refused for quota, and it succeeds, reserving
  the 100 bytes and indexing the entry, once an unused identifier is drawn and the file
  is written without a fault.
\<close>

theorem capacity_boundary:
  assumes "storage (stats s) = 0" and "maxStorage (stats s) = 100"
  shows "(length content = 101 \<longrightarrow> Put s content rnd now flt = (s, Inl ErrReachedMax))
       \<and> (length content = 100 \<longrightarrow> snd (Put s content rnd now flt) \<noteq> Inl ErrReachedMax)
       \<and> (length content = 100 \<and> randomID (cache s) rnd = Inr ident
            \<and> disk s (Path ident) = None
            \<and> \<not> open_fails flt \<and> 100 \<le> written flt \<and> \<not> write_fails flt \<and> \<not> close_fails flt
          \<longrightarrow> Put s content rnd now flt =
                (s\<lparr>disk := (disk s)(Path ident \<mapsto> content),
                   stats := \<lparr>storage = 100, maxStorage = 100\<rparr>,
                   cache := (cache s)(ident \<mapsto>
                     \<lparr>reading = 0, header = genHeader ident now 100, path = Path ident\<rparr>)\<rparr>,
                 Inr ident))"
proof (intro conjI impI)
  assume "length content = 101"
  with assms have "\<not> hasSpaceFor (stats s) (int (length content))"
    by (simp add: hasSpaceFor_def)
  then show "Put s content rnd now flt = (s, Inl ErrReachedMax)" by (rule Put_quota_error)
next
  assume "length content = 100"
  with assms have "hasSpaceFor (stats s) (int (length content))"
    by (simp add: hasSpaceFor_def)
  then show "snd (Put s content rnd now flt) \<noteq> Inl ErrReachedMax" by (rule Put_not_quota)
next
  assume a: "length content = 100 \<and> randomID (cache s) rnd = Inr ident
            \<and> disk s (Path ident) = None
            \<and> \<not> open_fails flt \<and> 100 \<le> written flt \<and> \<not> write_fails flt \<and> \<not> close_fails flt"
  with assms have sp: "hasSpaceFor (stats s) (int (length content))"
    by (simp add: hasSpaceFor_def)
  have st: "makeSpaceFor (stats s) 100 = \<lparr>storage = 100, maxStorage = 100\<rparr>"
    using assms by (simp add: makeSpaceFor_def)
  from a have "Put s content rnd now flt =
     (s\<lparr>disk := (disk s)(Path ident \<mapsto> content),
        stats := makeSpaceFor (stats s) (int (length content)),
        cache := (cache s)(ident \<mapsto>
          \<lparr>reading = 0, header = genHeader ident now (int (length content)),
           path = Path ident\<rparr>)\<rparr>, Inr ident)"
    by (intro Put_succeeds [OF sp]) simp_all
  with a st show "Put s content rnd now flt =
                (s\<lparr>disk := (disk s)(Path ident \<mapsto> content),
                   stats := \<lparr>storage = 100, maxStorage = 100\<rparr>,
                   cache := (cache s)(ident \<mapsto>
                     \<lparr>reading = 0, header = genHeader ident now 100, path = Path ident\<rparr>)\<rparr>,
                 Inr ident)"
    by simp
qed

theorem capacity_boundary_witness:
  "storage (stats (newStore 100 Map.empty)) = 0
   \<and> maxStorage (stats (newStore 100 Map.empty)) = 100
   \<and> Put (newStore 100 Map.empty) (replicate 101 7) (\<lambda>t. Some sample_id) 0 sample_flt
       = (newStore 100 Map.empty, Inl ErrReachedMax)
   \<and> Put (newStore 100 Map.empty) (replicate 100 7) (\<lambda>t. Some sample_id) 0 sample_flt
       = (\<lparr>cache = [sample_id \<mapsto> \<lparr>reading = 0, header = \<lparr>Size = 100, ModTime = 0\<rparr>,
                                   path = ''0a/ff109c''\<rparr>],
           stats = \<lparr>storage = 100, maxStorage = 100\<rparr>,
           disk = [''0a/ff109c'' \<mapsto> replicate 100 7], guards = [], timers = []\<rparr>,
          Inr sample_id)"
proof -
  have z: "storage (stats (newStore 100 Map.empty)) = 0"
    and mx: "maxStorage (stats (newStore 100 Map.empty)) = 100"
    by (simp_all add: newStore_def)
  have r: "randomID (cache (newStore 100 Map.empty)) (\<lambda>t. Some sample_id) = Inr sample_id"
    by (simp add: randomID_def randomID_loop.simps randTries_def newStore_def)
  have d: "disk (newStore 100 Map.empty) (Path sample_id) = None"
    by (simp add: newStore_def)
  have f: "\<not> open_fails sample_flt \<and> 100 \<le> written sample_flt \<and> \<not> write_fails sample_flt
           \<and> \<not> close_fails sample_flt"
    by (simp add: sample_flt_def)
  from capacity_boundary [OF z mx, of "replicate 101 7" "\<lambda>t. Some sample_id" 0 sample_flt sample_id]
  have a: "Put (newStore 100 Map.empty) (replicate 101 7) (\<lambda>t. Some sample_id) 0 sample_flt
       = (newStore 100 Map.empty, Inl ErrReachedMax)" by simp
  from capacity_boundary [OF z mx, of "replicate 100 7" "\<lambda>t. Some sample_id" 0 sample_flt sample_id]
    r d f
  have b: "Put (newStore 100 Map.empty) (replicate 100 7) (\<lambda>t. Some sample_id) 0 sample_flt
       = ((newStore 100 Map.empty)\<lparr>disk := (disk (newStore 100 Map.empty))(Path sample_id \<mapsto> replicate 100 7),
                   stats := \<lparr>storage = 100, maxStorage = 100\<rparr>,
                   cache := (cache (newStore 100 Map.empty))(sample_id \<mapsto>
                     \<lparr>reading = 0, header = genHeader sample_id 0 100, path = Path sample_id\<rparr>)\<rparr>,
                 Inr sample_id)" by simp
  from z mx a show ?thesis
    unfolding b by (simp add: newStore_def sample_Path genHeader_def)
qed

text \<open>
  Claim C4 (absent identifiers). In the store reached by any sequence of calls from a store
  with nothing indexed, an identifier that no \<^verbatim>\<open>Put\<close> of the sequence returned, or that a
  later \<^verbatim>\<open>Delete\<close> of the sequence was called on, is answered with \<^verbatim>\<open>ErrPasteNotFound\<close> by
  \<^verbatim>\<open>Get\<close> and by \<^verbatim>\<open>Delete\<close> alike, and the state is left as it was.
\<close>

theorem absent_not_found:
  assumes "ident \<notin> issued (newStore maxBytes d) ops {}"
  shows "Get (run (newStore maxBytes d) ops) ident open_fault =
           (run (newStore maxBytes d) ops, Inl ErrPasteNotFound)
       \<and> Delete (run (newStore maxBytes d) ops) ident remove_fault =
           (run (newStore maxBytes d) ops, Returns (Some ErrPasteNotFound))"
proof -
  have "dom (cache (run (newStore maxBytes d) ops)) = issued (newStore maxBytes d) ops {}"
    using run_issued [of "newStore maxBytes d" ops] by (simp add: newStore_def)
  with assms have "ident \<notin> dom (cache (run (newStore maxBytes d) ops))"
    by simp
  then have "cache (run (newStore maxBytes d) ops) ident = None"
    by (simp only: domIff not_not)
  then show ?thesis by (simp add: Get_absent Delete_absent)
qed

theorem absent_not_found_witness:
  "sample_id \<notin> issued (newStore 100 Map.empty)
      [OpPut [1, 2, 3] (\<lambda>t. Some sample_id) 0 sample_flt, OpDelete sample_id False] {}
   \<and> snd (Get (run (newStore 100 Map.empty)
      [OpPut [1, 2, 3] (\<lambda>t. Some sample_id) 0 sample_flt, OpDelete sample_id False])
        sample_id False) = Inl ErrPasteNotFound
   \<and> snd (Delete (run (newStore 100 Map.empty)
      [OpPut [1, 2, 3] (\<lambda>t. Some sample_id) 0 sample_flt, OpDelete sample_id False])
        sample_id False) = Returns (Some ErrPasteNotFound)"
proof -
  have d: "Delete sample_store sample_id False =
     (\<lparr>cache = Map.empty, stats = \<lparr>storage = 0, maxStorage = 100\<rparr>,
       disk = Map.empty, guards = [], timers = []\<rparr>, Returns None)"
    by (simp add: Delete_def sample_store_def freeSpace_def os_Remove_def Let_def)
  have i: "sample_id \<notin> issued (newStore 100 Map.empty)
      [OpPut [1, 2, 3] (\<lambda>t. Some sample_id) 0 sample_flt, OpDelete sample_id False] {}"
    by (simp add: sample_put d)
  from absent_not_found [OF i] i show ?thesis by simp
qed

text \<open>
  Claim C5, as amended (removal failure). When \<^verbatim>\<open>Delete\<close> is called on an indexed
  identifier and removing the file fails, \<^verbatim>\<open>Delete\<close> returns the removal error to its
  caller; the entry has left the index and its size has been released, and both stay so.
  In the earlier \<^verbatim>\<open>Id.EndLife\<close>, which returns nothing, a failed removal changes neither
  index nor files and arms another attempt after a fixed two minutes.
\<close>

theorem delete_surfaces_removal_failure:
  "(cache s ident = Some cached \<and> reading cached = 0
      \<and> (remove_fault \<or> disk s (path cached) = None)
    \<longrightarrow> Delete s ident remove_fault =
          (s\<lparr>cache := (cache s)(ident := None),
             stats := freeSpace (stats s) (Size (header cached))\<rparr>,
           Returns (Some ErrOS)))
   \<and> (remove_fault \<or> files w (Path ident) = None
    \<longrightarrow> EndLife w ident remove_fault = w\<lparr>armed := armed w @ [(ident, 2 * Minute)]\<rparr>)"
  by (auto simp add: Delete_def Let_def os_Remove_def EndLife_def EndLifeAfter_def)

theorem delete_surfaces_removal_failure_witness:
  "Delete sample_store sample_id True =
     (\<lparr>cache = Map.empty, stats = \<lparr>storage = 0, maxStorage = 100\<rparr>,
       disk = [''0a/ff109c'' \<mapsto> [1, 2, 3]], guards = [], timers = []\<rparr>,
      Returns (Some ErrOS))
   \<and> EndLife \<lparr>m = [sample_id \<mapsto> GenPasteInfo (\<lambda>b. ''text/plain; charset=utf-8'') sample_id 0 [1, 2, 3]],
              files = [''0a/ff109c'' \<mapsto> [1, 2, 3]], armed = [], started = []\<rparr> sample_id True =
       \<lparr>m = [sample_id \<mapsto> GenPasteInfo (\<lambda>b. ''text/plain; charset=utf-8'') sample_id 0 [1, 2, 3]],
        files = [''0a/ff109c'' \<mapsto> [1, 2, 3]], armed = [(sample_id, 120000000000)], started = []\<rparr>"
  using delete_surfaces_removal_failure [of sample_store sample_id
      "\<lparr>reading = 0, header = \<lparr>Size = 3, ModTime = 0\<rparr>, path = ''0a/ff109c''\<rparr>" True
      "\<lparr>m = [sample_id \<mapsto> GenPasteInfo (\<lambda>b. ''text/plain; charset=utf-8'') sample_id 0 [1, 2, 3]],
              files = [''0a/ff109c'' \<mapsto> [1, 2, 3]], armed = [], started = []\<rparr>"]
  by (simp add: sample_store_def freeSpace_def Minute_def)

text \<open>
  Claim C5 as stated, that the caller of \<^verbatim>\<open>Delete\<close> observes success when the removal
  fails, is false for the indexed identifier of the sample store.
\<close>

theorem delete_hides_removal_failure_counterexample:
  "cache sample_store sample_id \<noteq> None
   \<and> snd (Delete sample_store sample_id True) = Returns (Some ErrOS)
   \<and> snd (Delete sample_store sample_id True) \<noteq> Returns None"
  by (simp add: Delete_def sample_store_def freeSpace_def os_Remove_def Let_def)

text \<open>
  Every entry that \<^verbatim>\<open>Put\<close> stores has a zero wait group, and no call changes the wait
  group of a stored entry: \<^verbatim>\<open>Get\<close> increments its own copy. So the copy that \<^verbatim>\<open>Delete\<close>
  waits on is zero in every state the calls can reach, and \<^verbatim>\<open>Delete\<close> never waits.
\<close>

lemma Delete_never_waits: "snd (Delete (run (newStore maxBytes d) ops) ident f) \<noteq> Waits"
proof (cases "cache (run (newStore maxBytes d) ops) ident")
  case None
  then show ?thesis by (simp add: Delete_def)
next
  case (Some cached)
  have "reading cached = 0"
    by (rule run_unread [OF _ Some]) (simp add: newStore_def)
  with Some show ?thesis
    by (simp add: Delete_def Let_def split: prod.splits option.splits)
qed

text \<open>
  Claim C6 (reads and deletion), evaluated on the sample store. \<^verbatim>\<open>Get\<close> returns a handle
  whose wait group counts one reader. \<^verbatim>\<open>Delete\<close> of the same identifier, called while
  that handle is open, does not wait: it returns at once with the file removed, while the
  handle's wait group still counts its reader.
\<close>

theorem delete_unlinks_under_open_handle:
  "Get sample_store sample_id False =
     (sample_store\<lparr>guards := [1]\<rparr>,
      Inr (\<lparr>osfile = [1, 2, 3], readingp = 0\<rparr>, \<lparr>Size = 3, ModTime = 0\<rparr>))
   \<and> Delete (sample_store\<lparr>guards := [1]\<rparr>) sample_id False =
     (\<lparr>cache = Map.empty, stats = \<lparr>storage = 0, maxStorage = 100\<rparr>,
       disk = Map.empty, guards = [1], timers = []\<rparr>, Returns None)"
  by (simp add: Get_def Delete_def os_Open_def os_Remove_def freeSpace_def Let_def sample_store_def)





text \<open>
  Claim C9 (identifier generation). \<^verbatim>\<open>randomID\<close> returns only an identifier that is absent
  from the index and was drawn in one of the first \<^verbatim>\<open>randTries\<close> reads; its only error is
  \<^verbatim>\<open>ErrNoUnusedIDFound\<close>; its result depends on the first \<^verbatim>\<open>randTries\<close> reads alone; it
  returns that error when each of these reads fails or draws an indexed identifier. The
  identifiers returned by any sequence of \<^verbatim>\<open>Put\<close> calls are pairwise distinct.
\<close>

theorem identifier_generation:
  "(randomID c rnd = Inr ident \<longrightarrow> c ident = None \<and> (\<exists>t<randTries. rnd t = Some ident))
   \<and> (randomID c rnd = Inl e \<longrightarrow> e = ErrNoUnusedIDFound)
   \<and> ((\<forall>t<randTries. rnd t = rnd' t) \<longrightarrow> randomID c rnd = randomID c rnd')
   \<and> ((\<forall>t<randTries. \<forall>i. rnd t = Some i \<longrightarrow> c i \<noteq> None)
        \<longrightarrow> randomID c rnd = Inl ErrNoUnusedIDFound)
   \<and> distinct (returned (put_seq s puts))"
proof -
  have a: "c ident = None \<and> (\<exists>t<randTries. rnd t = Some ident)" if "randomID c rnd = Inr ident"
    using that randomID_fresh [of c rnd ident] randomID_loop_drawn [of c rnd 0 ident]
    by (auto simp add: randomID_def)
  have b: "e = ErrNoUnusedIDFound" if "randomID c rnd = Inl e"
    using that by (rule randomID_error)
  have c: "randomID c rnd = randomID c rnd'" if "\<forall>t<randTries. rnd t = rnd' t"
    unfolding randomID_def using that by (intro randomID_loop_cong) simp
  have d: "randomID c rnd = Inl ErrNoUnusedIDFound"
    if "\<forall>t<randTries. \<forall>i. rnd t = Some i \<longrightarrow> c i \<noteq> None"
    unfolding randomID_def using that
    by (intro randomID_loop_exhausted) (auto split: option.splits)
  from a b c d put_seq_distinct [of s puts] show ?thesis by blast
qed

theorem identifier_generation_witness:
  "randomID (cache sample_store) (\<lambda>t. if t < 3 then Some sample_id else Some other_id)
     = Inr other_id
   \<and> cache sample_store other_id = None
   \<and> randomID (cache sample_store) (\<lambda>t. Some sample_id) = Inl ErrNoUnusedIDFound
   \<and> randomID (cache sample_store) (\<lambda>t. if t < 10 then Some sample_id else Some other_id)
     = Inl ErrNoUnusedIDFound
   \<and> distinct [sample_id, other_id]"
proof -
  let ?c = "cache sample_store"
  let ?r1 = "\<lambda>t::nat. if t < 3 then Some sample_id else Some other_id"
  let ?r2 = "\<lambda>t::nat. Some sample_id"
  let ?r3 = "\<lambda>t::nat. if t < 10 then Some sample_id else Some other_id"
  let ?puts = "[([1, 2, 3], ?r2, 0, sample_flt), ([4, 5], ?r1, 1, sample_flt)]"
  note g1 = identifier_generation [of ?c ?r1 other_id ErrOS ?r1 "newStore 100 Map.empty" ?puts]
  note g2 = identifier_generation [of ?c ?r2 other_id ErrOS ?r3 "newStore 100 Map.empty" ?puts]
  have full: "\<forall>t<randTries. \<forall>i. ?r2 t = Some i \<longrightarrow> ?c i \<noteq> None"
    by (simp add: sample_store_def)
  have same: "\<forall>t<randTries. ?r2 t = ?r3 t"
    by (simp add: randTries_def)
  from g1 sample_retry have a: "?c other_id = None" by blast
  from g2 full have b: "randomID ?c ?r2 = Inl ErrNoUnusedIDFound" by blast
  from g2 same b have c: "randomID ?c ?r3 = Inl ErrNoUnusedIDFound" by simp
  from g1 have "distinct (returned (put_seq (newStore 100 Map.empty) ?puts))" by blast
  then have d: "distinct [sample_id, other_id]" by (simp only: sample_put_two returned.simps)
  from sample_retry a b c d show ?thesis by blast
qed

text \<open>
  Claim C10 (paths). The path of an identifier is the hex encoding of its first byte, a
  slash, and the hex encoding of its other three bytes; it splits into exactly two parts
  at the separator; and \<^verbatim>\<open>IdFromPath\<close> of it gives the identifier back.
\<close>

theorem Path_invertible:
  "Path (b0, b1, b2, b3) = hex_EncodeToString [b0] @ ''/'' @ hex_EncodeToString [b1, b2, b3]
   \<and> length (strings_Split (Path (b0, b1, b2, b3)) filepath_Separator) = 2
   \<and> IdFromPath (Path (b0, b1, b2, b3)) = Inr (b0, b1, b2, b3)"
proof -
  have "IdFromPath (Path (b0, b1, b2, b3)) = Inr (b0, b1, b2, b3)"
    by (simp add: IdFromPath_def Path_split IdFromString_String)
  moreover have "length (strings_Split (Path (b0, b1, b2, b3)) filepath_Separator) = 2"
    by (simp only: Path_split) simp
  ultimately show ?thesis
    using Path_levels [of b0 b1 b2 b3] by blast
qed

theorem Path_invertible_witness:
  "Path sample_id = ''0a/ff109c'' \<and> IdFromPath ''0a/ff109c'' = Inr sample_id"
proof -
  from Path_invertible [of "0x0a" "0xff" "0x10" "0x9c"]
  have "IdFromPath (Path sample_id) = Inr sample_id" unfolding sample_id_def by blast
  then show ?thesis by (simp add: sample_Path)
qed

end
